theory Spec2Isabelle
  imports Main "HOL-Library.Word" "HOL-Library.Sublist"
begin

section \<open>JavaScript values used by \<^verbatim>\<open>tokens.util.ts\<close>\<close>

text \<open>
  A JavaScript string is a sequence of 16-bit UTF-16 code units; a \<^verbatim>\<open>Buffer\<close> is a
  sequence of bytes. \<^verbatim>\<open>null\<close> and \<^verbatim>\<open>undefined\<close> of an optional field or parameter are
  \<open>None\<close>. String literals of the source are written with \<open>js\<close>, which maps the
  characters of an ASCII literal to their code units.
\<close>

type_synonym jsstring = "16 word list"
type_synonym byte = "8 word"

definition js :: "string \<Rightarrow> jsstring" where
  "js s = map (\<lambda>c. of_nat (of_char c)) s"

text \<open>\<^verbatim>\<open>data.startsWith(search)\<close>: \<open>search\<close> is a prefix of \<open>data\<close>, code unit by code unit.\<close>

definition String_startsWith :: "jsstring \<Rightarrow> jsstring \<Rightarrow> bool" where
  "String_startsWith data search = prefix search data"

text \<open>\<^verbatim>\<open>data.slice(n)\<close> for a start index \<open>n \<ge> 0\<close> and no end index.\<close>

definition String_slice :: "jsstring \<Rightarrow> nat \<Rightarrow> jsstring" where
  "String_slice data n = drop n data"

text \<open>
  \<^verbatim>\<open>s.split(sep, limit)\<close> for a separator of one code unit: the loop collects the pieces
  between the separators (an empty string gives one empty piece), and the limit keeps
  the first \<open>limit\<close> of them.
\<close>

fun split_loop :: "'a \<Rightarrow> 'a list \<Rightarrow> 'a list \<Rightarrow> 'a list list" where
  "split_loop sep cur [] = [rev cur]"
| "split_loop sep cur (c # cs) =
     (if c = sep then rev cur # split_loop sep [] cs else split_loop sep (c # cur) cs)"

definition String_split :: "jsstring \<Rightarrow> 16 word \<Rightarrow> nat \<Rightarrow> jsstring list" where
  "String_split s sep limit = take limit (split_loop sep [] s)"

text \<open>\<^verbatim>\<open>parts[i]\<close> on an array: \<^verbatim>\<open>undefined\<close> beyond its length.\<close>

definition Array_index :: "'a list \<Rightarrow> nat \<Rightarrow> 'a option" where
  "Array_index xs i = (if i < length xs then Some (xs ! i) else None)"

text \<open>\<^verbatim>\<open>xs.join(sep)\<close> on an array of strings.\<close>

fun Array_join :: "jsstring list \<Rightarrow> jsstring \<Rightarrow> jsstring" where
  "Array_join [] sep = []"
| "Array_join [x] sep = x"
| "Array_join (x # y # ys) sep = x @ sep @ Array_join (y # ys) sep"

text \<open>
  \<^verbatim>\<open>data.replace(pattern, replacement)\<close> with a string pattern: the first occurrence of
  the pattern is replaced (the replacement strings of the source hold no \<^verbatim>\<open>$\<close>
  pattern).
\<close>

fun String_replace :: "jsstring \<Rightarrow> jsstring \<Rightarrow> jsstring \<Rightarrow> jsstring" where
  "String_replace [] pat rep = (if pat = [] then rep else [])"
| "String_replace (c # cs) pat rep =
     (if prefix pat (c # cs) then rep @ drop (length pat) (c # cs)
      else c # String_replace cs pat rep)"

subsection \<open>UTF-16, UTF-8 and buffers\<close>

text \<open>
  Code points are natural numbers. Converting a string to bytes first reads its code
  units as code points: a high surrogate followed by a low surrogate is one supplementary
  code point, any other surrogate is replaced by U+FFFD.
\<close>

definition is_high_surrogate :: "16 word \<Rightarrow> bool" where
  "is_high_surrogate u = (0xD800 \<le> unat u \<and> unat u \<le> 0xDBFF)"

definition is_low_surrogate :: "16 word \<Rightarrow> bool" where
  "is_low_surrogate u = (0xDC00 \<le> unat u \<and> unat u \<le> 0xDFFF)"

definition is_surrogate :: "16 word \<Rightarrow> bool" where
  "is_surrogate u = (0xD800 \<le> unat u \<and> unat u \<le> 0xDFFF)"

text \<open>
  A string is well formed when it has no unpaired surrogate: it is the UTF-16 form of
  a sequence of Unicode scalar values, that is, of a text that UTF-8 can encode.
\<close>

fun String_isWellFormed :: "jsstring \<Rightarrow> bool" where
  "String_isWellFormed [] = True"
| "String_isWellFormed [u] = (\<not> is_surrogate u)"
| "String_isWellFormed (u # v # rest) =
     (if is_high_surrogate u then is_low_surrogate v \<and> String_isWellFormed rest
      else \<not> is_surrogate u \<and> String_isWellFormed (v # rest))"

text \<open>The Unicode scalar values: the code points that are not surrogates.\<close>

definition scalar_value :: "nat \<Rightarrow> bool" where
  "scalar_value c = (c < 0x110000 \<and> \<not> (0xD800 \<le> c \<and> c \<le> 0xDFFF))"

fun utf16_decode :: "jsstring \<Rightarrow> nat list" where
  "utf16_decode [] = []"
| "utf16_decode [u] = (if is_surrogate u then [0xFFFD] else [unat u])"
| "utf16_decode (u # v # rest) =
     (if is_high_surrogate u \<and> is_low_surrogate v
      then (0x10000 + (unat u - 0xD800) * 0x400 + (unat v - 0xDC00)) # utf16_decode rest
      else if is_surrogate u then 0xFFFD # utf16_decode (v # rest)
      else unat u # utf16_decode (v # rest))"

definition utf16_encode_scalar :: "nat \<Rightarrow> jsstring" where
  "utf16_encode_scalar c =
     (if c < 0x10000 then [of_nat c]
      else [of_nat (0xD800 + (c - 0x10000) div 0x400),
            of_nat (0xDC00 + (c - 0x10000) mod 0x400)])"

definition utf16_encode :: "nat list \<Rightarrow> jsstring" where
  "utf16_encode cs = concat (map utf16_encode_scalar cs)"

definition utf8_encode_scalar :: "nat \<Rightarrow> nat list" where
  "utf8_encode_scalar c =
     (if c < 0x80 then [c]
      else if c < 0x800 then [0xC0 + c div 0x40, 0x80 + c mod 0x40]
      else if c < 0x10000 then
        [0xE0 + c div 0x1000, 0x80 + (c div 0x40) mod 0x40, 0x80 + c mod 0x40]
      else
        [0xF0 + c div 0x40000, 0x80 + (c div 0x1000) mod 0x40,
         0x80 + (c div 0x40) mod 0x40, 0x80 + c mod 0x40])"

definition utf8_encode :: "nat list \<Rightarrow> nat list" where
  "utf8_encode cs = concat (map utf8_encode_scalar cs)"

text \<open>
  The UTF-8 decoder of \<^verbatim>\<open>buf.toString('utf8')\<close>: a byte that cannot start or continue
  a sequence ends the sequence read so far, which becomes one U+FFFD, and is read again
  as the start of the next one. The second byte of a three- or four-byte sequence has a
  narrower range after the lead bytes E0, ED, F0 and F4 (no overlong forms, no
  surrogates, nothing above U+10FFFF).
\<close>

definition continuation :: "nat \<Rightarrow> nat \<Rightarrow> nat \<Rightarrow> bool" where
  "continuation lo hi b = (lo \<le> b \<and> b \<le> hi)"

fun utf8_decode :: "nat list \<Rightarrow> nat list" where
  "utf8_decode [] = []"
| "utf8_decode (b # bs) =
     (if b < 0x80 then b # utf8_decode bs
      else if 0xC2 \<le> b \<and> b \<le> 0xDF then
        (case bs of
           [] \<Rightarrow> [0xFFFD]
         | c1 # r1 \<Rightarrow>
             if continuation 0x80 0xBF c1
             then ((b - 0xC0) * 0x40 + (c1 - 0x80)) # utf8_decode r1
             else 0xFFFD # utf8_decode bs)
      else if 0xE0 \<le> b \<and> b \<le> 0xEF then
        (case bs of
           [] \<Rightarrow> [0xFFFD]
         | c1 # r1 \<Rightarrow>
             if continuation (if b = 0xE0 then 0xA0 else 0x80) (if b = 0xED then 0x9F else 0xBF) c1
             then (case r1 of
                     [] \<Rightarrow> [0xFFFD]
                   | c2 # r2 \<Rightarrow>
                       if continuation 0x80 0xBF c2
                       then ((b - 0xE0) * 0x1000 + (c1 - 0x80) * 0x40 + (c2 - 0x80))
                              # utf8_decode r2
                       else 0xFFFD # utf8_decode r1)
             else 0xFFFD # utf8_decode bs)
      else if 0xF0 \<le> b \<and> b \<le> 0xF4 then
        (case bs of
           [] \<Rightarrow> [0xFFFD]
         | c1 # r1 \<Rightarrow>
             if continuation (if b = 0xF0 then 0x90 else 0x80) (if b = 0xF4 then 0x8F else 0xBF) c1
             then (case r1 of
                     [] \<Rightarrow> [0xFFFD]
                   | c2 # r2 \<Rightarrow>
                       if continuation 0x80 0xBF c2
                       then (case r2 of
                               [] \<Rightarrow> [0xFFFD]
                             | c3 # r3 \<Rightarrow>
                                 if continuation 0x80 0xBF c3
                                 then ((b - 0xF0) * 0x40000 + (c1 - 0x80) * 0x1000
                                        + (c2 - 0x80) * 0x40 + (c3 - 0x80)) # utf8_decode r3
                                 else 0xFFFD # utf8_decode r2)
                       else 0xFFFD # utf8_decode r1)
             else 0xFFFD # utf8_decode bs)
      else 0xFFFD # utf8_decode bs)"

text \<open>\<^verbatim>\<open>Buffer.from(s, 'utf8')\<close> and \<^verbatim>\<open>buf.toString('utf8')\<close>.\<close>

definition Buffer_from_utf8 :: "jsstring \<Rightarrow> byte list" where
  "Buffer_from_utf8 s = map of_nat (utf8_encode (utf16_decode s))"

definition Buffer_toString_utf8 :: "byte list \<Rightarrow> jsstring" where
  "Buffer_toString_utf8 buf = utf16_encode (utf8_decode (map unat buf))"

text \<open>\<^verbatim>\<open>buf.toString('hex')\<close>: two lower-case digits for each byte.\<close>

definition hex_digit :: "nat \<Rightarrow> 16 word" where
  "hex_digit n = (if n < 10 then of_nat (48 + n) else of_nat (87 + n))"

definition Buffer_toString_hex :: "byte list \<Rightarrow> jsstring" where
  "Buffer_toString_hex buf =
     concat (map (\<lambda>b. [hex_digit (unat b div 16), hex_digit (unat b mod 16)]) buf)"

text \<open>
  \<^verbatim>\<open>Buffer.from(s, 'hex')\<close>: pairs of hexadecimal digits of either case are decoded
  until a pair with another character or a single last character is met; the rest is
  dropped. The decoder reads the string one byte for each code unit, the low eight bits
  of the unit, so a unit above U+00FF counts as the character its low byte spells.
\<close>

definition hex_value :: "nat \<Rightarrow> nat option" where
  "hex_value n =
     (if 48 \<le> n \<and> n \<le> 57 then Some (n - 48)
      else if 65 \<le> n \<and> n \<le> 70 then Some (10 + (n - 65))
      else if 97 \<le> n \<and> n \<le> 102 then Some (10 + (n - 97))
      else None)"

definition hex2bin :: "16 word \<Rightarrow> nat option" where
  "hex2bin c = hex_value (unat c mod 256)"

fun Buffer_from_hex :: "jsstring \<Rightarrow> byte list" where
  "Buffer_from_hex (a # b # rest) =
     (case (hex2bin a, hex2bin b) of
        (Some x, Some y) \<Rightarrow> of_nat (x * 16 + y) # Buffer_from_hex rest
      | _ \<Rightarrow> [])"
| "Buffer_from_hex _ = []"

subsection \<open>\<^verbatim>\<open>URLSearchParams\<close>\<close>

text \<open>
  A \<^verbatim>\<open>URLSearchParams\<close> object is its list of name-value pairs, in order. The
  serialiser and the parser are those of the URL standard for
  \<^verbatim>\<open>application/x-www-form-urlencoded\<close>, over the UTF-8 bytes of the strings. Node's
  parser decodes a name or value with \<^verbatim>\<open>decodeURIComponent\<close> and, where that throws,
  byte by byte, which departs from the standard where a character above U+007F stands
  beside a percent sequence that \<^verbatim>\<open>decodeURIComponent\<close> refuses; the definitions
  below follow the standard there. The serialiser writes ASCII only and every percent
  sequence it writes is valid, so what it writes is parsed alike by both.
\<close>

type_synonym URLSearchParams = "(jsstring \<times> jsstring) list"

text \<open>
  Serialising: a space becomes \<^verbatim>\<open>+\<close>; the ASCII letters and digits and
  \<^verbatim>\<open>* - . _\<close> stay; every other byte becomes \<^verbatim>\<open>%\<close> and two upper-case
  hexadecimal digits. A pair is \<^verbatim>\<open>name=value\<close>, and the pairs are joined by \<^verbatim>\<open>&\<close>.
\<close>

definition urlencoded_keep :: "nat \<Rightarrow> bool" where
  "urlencoded_keep b =
     (b = 0x2A \<or> b = 0x2D \<or> b = 0x2E \<or> (0x30 \<le> b \<and> b \<le> 0x39)
      \<or> (0x41 \<le> b \<and> b \<le> 0x5A) \<or> b = 0x5F \<or> (0x61 \<le> b \<and> b \<le> 0x7A))"

definition upper_hex_digit :: "nat \<Rightarrow> nat" where
  "upper_hex_digit n = (if n < 10 then 48 + n else 55 + n)"

definition urlencoded_byte :: "nat \<Rightarrow> nat list" where
  "urlencoded_byte b =
     (if b = 0x20 then [0x2B]
      else if urlencoded_keep b then [b]
      else [0x25, upper_hex_digit (b div 16), upper_hex_digit (b mod 16)])"

definition urlencoded_string :: "jsstring \<Rightarrow> nat list" where
  "urlencoded_string s = concat (map urlencoded_byte (utf8_encode (utf16_decode s)))"

definition pair_bytes :: "jsstring \<times> jsstring \<Rightarrow> nat list" where
  "pair_bytes p = urlencoded_string (fst p) @ [0x3D] @ urlencoded_string (snd p)"

fun urlencoded_serialize :: "URLSearchParams \<Rightarrow> nat list" where
  "urlencoded_serialize [] = []"
| "urlencoded_serialize [p] = pair_bytes p"
| "urlencoded_serialize (p # q # ps) = pair_bytes p @ [0x26] @ urlencoded_serialize (q # ps)"

definition URLSearchParams_toString :: "URLSearchParams \<Rightarrow> jsstring" where
  "URLSearchParams_toString params = map of_nat (urlencoded_serialize params)"

text \<open>
  Parsing: the input is cut at every \<^verbatim>\<open>&\<close>, empty pieces are skipped, a piece is cut
  at its first \<^verbatim>\<open>=\<close> (the value is empty without one), then in the name and in the
  value \<^verbatim>\<open>+\<close> becomes a space, a \<^verbatim>\<open>%\<close> followed by two hexadecimal digits
  becomes the byte they denote, and the bytes are decoded as UTF-8.
\<close>

fun percent_decode :: "nat list \<Rightarrow> nat list" where
  "percent_decode [] = []"
| "percent_decode (b # bs) =
     (if b = 0x25 then
        (case bs of
           h1 # h2 # rest \<Rightarrow>
             (case (hex_value h1, hex_value h2) of
                (Some x, Some y) \<Rightarrow> (x * 16 + y) # percent_decode rest
              | _ \<Rightarrow> b # percent_decode bs)
         | _ \<Rightarrow> b # percent_decode bs)
      else b # percent_decode bs)"

abbreviation plus_to_space :: "nat list \<Rightarrow> nat list" where
  "plus_to_space \<equiv> map (\<lambda>b. if b = 0x2B then 0x20 else b)"

definition urlencoded_decode :: "nat list \<Rightarrow> jsstring" where
  "urlencoded_decode bs = utf16_encode (utf8_decode (percent_decode (plus_to_space bs)))"

definition urlencoded_parse :: "nat list \<Rightarrow> URLSearchParams" where
  "urlencoded_parse input =
     map (\<lambda>bytes. (urlencoded_decode (takeWhile (\<lambda>b. b \<noteq> 0x3D) bytes),
                    urlencoded_decode (drop 1 (dropWhile (\<lambda>b. b \<noteq> 0x3D) bytes))))
       (filter (\<lambda>bytes. bytes \<noteq> []) (split_loop 0x26 [] input))"

text \<open>
  For the proofs: the characters a serialised name or value can hold (ASCII, and none of
  \<^verbatim>\<open>&\<close>, \<^verbatim>\<open>=\<close>, \<^verbatim>\<open>?\<close>).
\<close>

definition urlencoded_char :: "nat \<Rightarrow> bool" where
  "urlencoded_char c = (c < 0x80 \<and> c \<noteq> 0x26 \<and> c \<noteq> 0x3D \<and> c \<noteq> 0x3F)"

text \<open>\<^verbatim>\<open>new URLSearchParams(init)\<close> for a string: one leading \<^verbatim>\<open>?\<close> is dropped.\<close>

definition URLSearchParams_new :: "jsstring \<Rightarrow> URLSearchParams" where
  "URLSearchParams_new init =
     urlencoded_parse (utf8_encode (utf16_decode
       (case init of [] \<Rightarrow> [] | c # cs \<Rightarrow> if c = 0x3F then cs else init)))"

text \<open>\<^verbatim>\<open>params.get(name)\<close>: the value of the first pair with that name, or \<^verbatim>\<open>null\<close>.\<close>

definition URLSearchParams_get :: "URLSearchParams \<Rightarrow> jsstring \<Rightarrow> jsstring option" where
  "URLSearchParams_get params name = map_of params name"


section \<open>The byte-string codec\<close>

definition encodeHex :: "jsstring \<Rightarrow> jsstring" where
  "encodeHex data =
     (let encoded = Buffer_toString_hex (Buffer_from_utf8 data)
      in if encoded = [] then js ''0x00'' else js ''0x'' @ encoded)"

definition decodeHex :: "jsstring \<Rightarrow> jsstring" where
  "decodeHex data =
     (let decoded = Buffer_toString_utf8 (Buffer_from_hex (String_replace data (js ''0x'') []))
      in if decoded = [0] then [] else decoded)"

section \<open>Subscription names\<close>

record SubscriptionName =
  prefix :: jsstring
  poolLocator :: "jsstring option"
  event :: "jsstring option"

definition packSubscriptionName :: "jsstring \<Rightarrow> jsstring \<Rightarrow> jsstring option \<Rightarrow> jsstring" where
  "packSubscriptionName pre poolLoc ev =
     (case ev of
        None \<Rightarrow> Array_join [pre, poolLoc] (js '':'')
      | Some e \<Rightarrow> Array_join [pre, poolLoc, e] (js '':''))"

text \<open>
  The separator \<^verbatim>\<open>':'\<close> of \<^verbatim>\<open>split\<close> is the code unit 58; \<^verbatim>\<open>parts?.[i]\<close> is
  \<^verbatim>\<open>undefined\<close> when \<open>parts\<close> is.
\<close>

definition unpackSubscriptionName :: "jsstring \<Rightarrow> jsstring \<Rightarrow> SubscriptionName" where
  "unpackSubscriptionName pre data =
     (let parts =
            (if String_startsWith data (pre @ js '':'')
             then Some (String_split (String_slice data (length pre + 1)) 58 2)
             else None)
      in \<lparr> prefix = pre,
           poolLocator = Option.bind parts (\<lambda>ps. Array_index ps 0),
           event = Option.bind parts (\<lambda>ps. Array_index ps 1) \<rparr>)"

section \<open>Schema names\<close>

text \<open>
  \<^verbatim>\<open>enum TokenType { FUNGIBLE = 'fungible', NONFUNGIBLE = 'nonfungible' }\<close>: a string
  enum, so a value of the type is its string at run time and \<^verbatim>\<open>===\<close> compares strings.
\<close>

definition TokenType_FUNGIBLE :: jsstring where
  "TokenType_FUNGIBLE = js ''fungible''"

definition TokenType_NONFUNGIBLE :: jsstring where
  "TokenType_NONFUNGIBLE = js ''nonfungible''"

text \<open>
  \<^verbatim>\<open>getTokenSchema(type, withData = true)\<close>: an omitted \<open>withData\<close> is \<open>None\<close> and
  takes the default.
\<close>

definition getTokenSchema :: "jsstring \<Rightarrow> bool option \<Rightarrow> jsstring" where
  "getTokenSchema type withData =
     (let withData = (case withData of None \<Rightarrow> True | Some b \<Rightarrow> b)
      in if type = TokenType_FUNGIBLE
         then (if withData then js ''ERC20WithData'' else js ''ERC20NoData'')
         else (if withData then js ''ERC721WithData'' else js ''ERC721NoData''))"

section \<open>Pool locators\<close>

text \<open>
  Modelled from the spec: the key names of \<^verbatim>\<open>EncodedPoolLocatorEnum\<close>, which
  \<^verbatim>\<open>tokens.interfaces.ts\<close> declares and the sources at hand do not hold. The encoded
  locator has exactly the keys \<^verbatim>\<open>address\<close>, \<^verbatim>\<open>schema\<close> and \<^verbatim>\<open>type\<close> (the
  locators of the test suite are spelled so); the legacy key of the schema field is
  \<^verbatim>\<open>standard\<close>, the name of that field in the earlier \<^verbatim>\<open>EncodedPoolIdEnum\<close>.
\<close>

definition EncodedPoolLocatorEnum_Address :: jsstring where
  "EncodedPoolLocatorEnum_Address = js ''address''"

definition EncodedPoolLocatorEnum_Schema :: jsstring where
  "EncodedPoolLocatorEnum_Schema = js ''schema''"

definition EncodedPoolLocatorEnum_Standard :: jsstring where
  "EncodedPoolLocatorEnum_Standard = js ''standard''"

definition EncodedPoolLocatorEnum_Type :: jsstring where
  "EncodedPoolLocatorEnum_Type = js ''type''"

text \<open>
  Modelled from the spec: the interfaces \<^verbatim>\<open>IValidPoolLocator\<close> and
  \<^verbatim>\<open>IPoolLocator\<close>, which \<^verbatim>\<open>tokens.interfaces.ts\<close> declares too. A structured
  locator has the fields address, schema and type; in a valid one all three are strings,
  in a decoded one each is a string or \<^verbatim>\<open>null\<close>. The \<^verbatim>\<open>as TokenType\<close> of
  \<^verbatim>\<open>unpackPoolLocator\<close> is a cast without a check, so the type field holds whatever
  string was read.
\<close>

record IValidPoolLocator =
  address :: jsstring
  schema :: jsstring
  type :: jsstring

record IPoolLocator =
  address :: "jsstring option"
  schema :: "jsstring option"
  type :: "jsstring option"

text \<open>
  The object literal given to \<^verbatim>\<open>new URLSearchParams\<close> has three distinct keys, none of
  them an array index, so its pairs come in the order written.
\<close>

definition packPoolLocator :: "IValidPoolLocator \<Rightarrow> jsstring" where
  "packPoolLocator locator =
     (let encoded =
            [(EncodedPoolLocatorEnum_Address, IValidPoolLocator.address locator),
             (EncodedPoolLocatorEnum_Schema, IValidPoolLocator.schema locator),
             (EncodedPoolLocatorEnum_Type, IValidPoolLocator.type locator)]
      in URLSearchParams_toString encoded)"

definition unpackPoolLocator :: "jsstring \<Rightarrow> IPoolLocator" where
  "unpackPoolLocator data =
     (let encoded = URLSearchParams_new data
      in \<lparr> address = URLSearchParams_get encoded EncodedPoolLocatorEnum_Address,
           schema =
             (case URLSearchParams_get encoded EncodedPoolLocatorEnum_Schema of
                Some s \<Rightarrow> Some s
              | None \<Rightarrow> URLSearchParams_get encoded EncodedPoolLocatorEnum_Standard),
           type = URLSearchParams_get encoded EncodedPoolLocatorEnum_Type \<rparr>)"

definition validatePoolLocator :: "IPoolLocator \<Rightarrow> bool" where
  "validatePoolLocator poolLoc =
     (address poolLoc \<noteq> None \<and> schema poolLoc \<noteq> None \<and> type poolLoc \<noteq> None)"

section \<open>Call arguments\<close>

text \<open>
  Modelled from the spec: \<open>buildArguments\<close>, the assembly of the positional arguments of
  a contract call, which \<^verbatim>\<open>tokens.service.ts\<close> performs and the sources at hand do not
  hold. The arguments of the operation come in the order the method expects (for a mint:
  \<open>to\<close>, \<open>amount\<close>; the orders of transfer and burn are the ones the test suite expects);
  for a with-data schema the encoded form of the data field, or of the empty string if
  none was supplied, is appended as the final argument; for a without-data schema the
  data field is omitted. A schema name that is none of the four canonical ones is
  unsupported.
\<close>

datatype Operation =
  Mint jsstring jsstring
| Transfer jsstring jsstring jsstring
| Burn jsstring jsstring

fun operationFields :: "Operation \<Rightarrow> jsstring list" where
  "operationFields (Mint to amount) = [to, amount]"
| "operationFields (Transfer from to amount) = [from, to, amount]"
| "operationFields (Burn from amount) = [from, amount]"

definition schemaWithData :: "jsstring \<Rightarrow> bool option" where
  "schemaWithData schemaName =
     (if schemaName = js ''ERC20WithData'' \<or> schemaName = js ''ERC721WithData'' then Some True
      else if schemaName = js ''ERC20NoData'' \<or> schemaName = js ''ERC721NoData'' then Some False
      else None)"

definition buildArguments :: "jsstring \<Rightarrow> Operation \<Rightarrow> jsstring option \<Rightarrow> jsstring list option" where
  "buildArguments schemaName operation data =
     (case schemaWithData schemaName of
        None \<Rightarrow> None
      | Some True \<Rightarrow>
          Some (operationFields operation
                @ [encodeHex (case data of None \<Rightarrow> [] | Some d \<Rightarrow> d)])
      | Some False \<Rightarrow> Some (operationFields operation))"

section \<open>Properties of the string primitives\<close>

lemma split_loop_no_sep:
  "sep \<notin> set l \<Longrightarrow> split_loop sep cur l = [rev cur @ l]"
  by (induction l arbitrary: cur) auto

lemma split_loop_first:
  "sep \<notin> set l \<Longrightarrow>
   split_loop sep cur (l @ sep # rest) = (rev cur @ l) # split_loop sep [] rest"
  by (induction l arbitrary: cur) auto

lemma split_loop_nonempty: "split_loop sep cur s \<noteq> []"
  by (induction s arbitrary: cur) auto

lemma split_loop_hd:
  "hd (split_loop sep cur s) = rev cur @ takeWhile (\<lambda>c. c \<noteq> sep) s"
  by (induction s arbitrary: cur) auto

lemma take2_split_loop:
  assumes "sep \<notin> set l"
  shows "take 2 (split_loop sep [] (l @ sep # e)) = [l, takeWhile (\<lambda>c. c \<noteq> sep) e]"
proof -
  obtain p ps where ps: "split_loop sep [] e = p # ps"
    using split_loop_nonempty [of sep "[]" e] by (cases "split_loop sep [] e") auto
  have "p = takeWhile (\<lambda>c. c \<noteq> sep) e"
    using split_loop_hd [of sep "[]" e] ps by simp
  with ps assms show ?thesis
    by (simp add: split_loop_first [where cur = "[]", simplified] numeral_2_eq_2)
qed

section \<open>Properties of the encodings\<close>

subsection \<open>Arithmetic of the UTF-8 byte layout\<close>

lemma div_0x1000: "(c::nat) div 0x1000 = (c div 0x40) div 0x40"
  by (simp add: div_mult2_eq [symmetric])

lemma div_0x40000: "(c::nat) div 0x40000 = ((c div 0x40) div 0x40) div 0x40"
  by (simp add: div_mult2_eq [symmetric])

lemma three_byte_value:
  "((c::nat) div 0x1000) * 0x1000 + ((c div 0x40) mod 0x40) * 0x40 + c mod 0x40 = c"
proof -
  have "c div 0x1000 * 0x1000 = ((c div 0x40) div 0x40) * 0x40 * 0x40"
    by (simp add: div_0x1000)
  then show ?thesis
    by (metis add_mult_distrib div_mult_mod_eq)
qed

lemma four_byte_value:
  "((c::nat) div 0x40000) * 0x40000 + ((c div 0x1000) mod 0x40) * 0x1000
     + ((c div 0x40) mod 0x40) * 0x40 + c mod 0x40 = c"
proof -
  have "(c div 0x1000) div 0x40 = c div 0x40000"
    by (simp add: div_mult2_eq [symmetric])
  then have "(c div 0x40000) * 0x40000 + ((c div 0x1000) mod 0x40) * 0x1000
      = (c div 0x1000) * 0x1000"
    using div_mult_mod_eq [of "c div 0x1000" "0x40"] by simp
  then show ?thesis
    using three_byte_value [of c] by simp
qed

lemma three_byte_lower:
  "0x800 \<le> (c::nat) \<Longrightarrow> c div 0x1000 = 0 \<Longrightarrow> 0x20 \<le> (c div 0x40) mod 0x40"
  by (simp add: div_0x1000)

lemma three_byte_upper:
  assumes "\<not> (0xD800 \<le> c \<and> c \<le> 0xDFFF)" "(c::nat) div 0x1000 = 0xD"
  shows "(c div 0x40) mod 0x40 \<le> 0x1F"
proof -
  have "c < 0xE000"
    using assms(2) by simp
  with assms(1) have "c div 0x40 < 0x360"
    by simp
  moreover have "c div 0x40 = 0xD * 0x40 + (c div 0x40) mod 0x40"
    using assms(2) div_mult_mod_eq [of "c div 0x40" "0x40"] by (simp add: div_0x1000)
  ultimately show ?thesis
    by linarith
qed

lemma three_byte_lead: "0x800 \<le> (c::nat) \<Longrightarrow> c < 0x10000 \<Longrightarrow> c div 0x1000 \<le> 0xF"
  by simp

lemma four_byte_lower:
  "0x10000 \<le> (c::nat) \<Longrightarrow> c div 0x40000 = 0 \<Longrightarrow> 0x10 \<le> (c div 0x1000) mod 0x40"
  by (simp add: div_0x1000 div_0x40000)

lemma four_byte_upper:
  assumes "(c::nat) < 0x110000" "c div 0x40000 = 4"
  shows "(c div 0x1000) mod 0x40 \<le> 0xF"
proof -
  have "c div 0x1000 < 0x110"
    using assms(1) by simp
  moreover have "(c div 0x1000) div 0x40 = 4"
    using assms(2) by (simp add: div_mult2_eq [symmetric])
  then have "c div 0x1000 = 4 * 0x40 + (c div 0x1000) mod 0x40"
    using div_mult_mod_eq [of "c div 0x1000" "0x40"] by simp
  ultimately show ?thesis
    by linarith
qed

lemma four_byte_lead: "(c::nat) < 0x110000 \<Longrightarrow> c div 0x40000 \<le> 4"
  by simp

subsection \<open>UTF-8 decoding inverts encoding\<close>

lemma utf8_decode_1:
  "c < 0x80 \<Longrightarrow> utf8_decode (utf8_encode_scalar c @ rest) = c # utf8_decode rest"
  by (simp add: utf8_encode_scalar_def)

lemma utf8_decode_2:
  assumes "0x80 \<le> c" "c < 0x800"
  shows "utf8_decode (utf8_encode_scalar c @ rest) = c # utf8_decode rest"
proof -
  define b where "b = 0xC0 + c div 0x40"
  define c1 where "c1 = 0x80 + c mod 0x40"
  have enc: "utf8_encode_scalar c = [b, c1]"
    using assms by (simp add: utf8_encode_scalar_def b_def c1_def)
  have b: "0xC2 \<le> b" "b \<le> 0xDF"
    using assms unfolding b_def by simp_all
  have k1: "continuation 0x80 0xBF c1"
    unfolding continuation_def c1_def by simp
  have v: "(b - 0xC0) * 0x40 + (c1 - 0x80) = c"
    unfolding b_def c1_def by simp
  show ?thesis
    unfolding enc using b k1 v by simp
qed

lemma utf8_decode_3:
  assumes "0x800 \<le> c" "c < 0x10000" "\<not> (0xD800 \<le> c \<and> c \<le> 0xDFFF)"
  shows "utf8_decode (utf8_encode_scalar c @ rest) = c # utf8_decode rest"
proof -
  define b where "b = 0xE0 + c div 0x1000"
  define c1 where "c1 = 0x80 + (c div 0x40) mod 0x40"
  define c2 where "c2 = 0x80 + c mod 0x40"
  have enc: "utf8_encode_scalar c = [b, c1, c2]"
    using assms by (simp add: utf8_encode_scalar_def b_def c1_def c2_def)
  have b: "0xE0 \<le> b" "b \<le> 0xEF"
    using three_byte_lead [OF assms(1,2)] unfolding b_def by simp_all
  have k1: "continuation (if b = 0xE0 then 0xA0 else 0x80) (if b = 0xED then 0x9F else 0xBF) c1"
  proof -
    have "0xA0 \<le> c1" if "b = 0xE0"
      using three_byte_lower [OF assms(1)] that unfolding b_def c1_def by simp
    moreover have "c1 \<le> 0x9F" if "b = 0xED"
      using three_byte_upper [OF assms(3)] that unfolding b_def c1_def by simp
    moreover have "0x80 \<le> c1" "c1 \<le> 0xBF"
      unfolding c1_def by simp_all
    ultimately show ?thesis
      unfolding continuation_def by simp
  qed
  have k2: "continuation 0x80 0xBF c2"
    unfolding continuation_def c2_def by simp
  have v: "(b - 0xE0) * 0x1000 + (c1 - 0x80) * 0x40 + (c2 - 0x80) = c"
    using three_byte_value [of c] unfolding b_def c1_def c2_def by simp
  show ?thesis
    unfolding enc using b k1 k2 v by simp
qed

lemma utf8_decode_4:
  assumes "0x10000 \<le> c" "c < 0x110000"
  shows "utf8_decode (utf8_encode_scalar c @ rest) = c # utf8_decode rest"
proof -
  define b where "b = 0xF0 + c div 0x40000"
  define c1 where "c1 = 0x80 + (c div 0x1000) mod 0x40"
  define c2 where "c2 = 0x80 + (c div 0x40) mod 0x40"
  define c3 where "c3 = 0x80 + c mod 0x40"
  have enc: "utf8_encode_scalar c = [b, c1, c2, c3]"
    using assms by (simp add: utf8_encode_scalar_def b_def c1_def c2_def c3_def)
  have b: "0xF0 \<le> b" "b \<le> 0xF4"
    using four_byte_lead [OF assms(2)] unfolding b_def by simp_all
  have k1: "continuation (if b = 0xF0 then 0x90 else 0x80) (if b = 0xF4 then 0x8F else 0xBF) c1"
  proof -
    have "0x90 \<le> c1" if "b = 0xF0"
      using four_byte_lower [OF assms(1)] that unfolding b_def c1_def by simp
    moreover have "c1 \<le> 0x8F" if "b = 0xF4"
      using four_byte_upper [OF assms(2)] that unfolding b_def c1_def by simp
    moreover have "0x80 \<le> c1" "c1 \<le> 0xBF"
      unfolding c1_def by simp_all
    ultimately show ?thesis
      unfolding continuation_def by simp
  qed
  have k2: "continuation 0x80 0xBF c2"
    unfolding continuation_def c2_def by simp
  have k3: "continuation 0x80 0xBF c3"
    unfolding continuation_def c3_def by simp
  have v: "(b - 0xF0) * 0x40000 + (c1 - 0x80) * 0x1000 + (c2 - 0x80) * 0x40 + (c3 - 0x80) = c"
    using four_byte_value [of c] unfolding b_def c1_def c2_def c3_def by simp
  show ?thesis
    unfolding enc using b k1 k2 k3 v by simp
qed

lemma utf8_decode_encode_scalar:
  assumes "scalar_value c"
  shows "utf8_decode (utf8_encode_scalar c @ rest) = c # utf8_decode rest"
proof -
  consider "c < 0x80" | "0x80 \<le> c" "c < 0x800" | "0x800 \<le> c" "c < 0x10000" | "0x10000 \<le> c"
    by linarith
  then show ?thesis
  proof cases
    case 1 then show ?thesis by (rule utf8_decode_1)
  next
    case 2 then show ?thesis by (rule utf8_decode_2)
  next
    case 3 with assms show ?thesis by (intro utf8_decode_3) (simp_all add: scalar_value_def)
  next
    case 4 with assms show ?thesis by (intro utf8_decode_4) (simp_all add: scalar_value_def)
  qed
qed

lemma utf8_decode_encode:
  "list_all scalar_value cs \<Longrightarrow> utf8_decode (utf8_encode cs) = cs"
  by (induction cs) (simp_all add: utf8_encode_def utf8_decode_encode_scalar)

lemma mod64_less: "(x::nat) mod 0x40 < 0x80"
  using mod_less_divisor [of "0x40" x] by linarith

lemma utf8_encode_scalar_byte:
  assumes "scalar_value c"
  shows "list_all (\<lambda>b. b < 256) (utf8_encode_scalar c)"
proof -
  have "c div 0x40000 \<le> 4"
    using assms by (intro four_byte_lead) (simp add: scalar_value_def)
  moreover have "c div 0x40 < 0x40" if "c < 0x800"
    using that by simp
  moreover have "c div 0x1000 < 0x20" if "c < 0x10000"
    using that by simp
  ultimately show ?thesis
    by (simp add: utf8_encode_scalar_def mod64_less)
qed

lemma utf8_encode_byte:
  "list_all scalar_value cs \<Longrightarrow> list_all (\<lambda>b. b < 256) (utf8_encode cs)"
  by (induction cs) (simp_all add: utf8_encode_def utf8_encode_scalar_byte)

lemma map_unat_of_nat:
  "list_all (\<lambda>b. b < 256) bs \<Longrightarrow> map unat (map of_nat bs :: byte list) = bs"
  by (induction bs) (simp_all add: unat_of_nat)

lemma utf8_encode_scalar_nonempty: "utf8_encode_scalar c \<noteq> []"
  by (simp add: utf8_encode_scalar_def)

lemma utf8_encode_Nil_iff: "utf8_encode cs = [] \<longleftrightarrow> cs = []"
  by (cases cs) (simp_all add: utf8_encode_def utf8_encode_scalar_nonempty)

subsection \<open>UTF-16 decoding and encoding\<close>

lemma unat_16_less: "unat (u :: 16 word) < 0x10000"
  using unsigned_less [of u, where ?'a = nat] by simp

lemma utf16_decode_scalar: "list_all scalar_value (utf16_decode s)"
proof (induction s rule: utf16_decode.induct)
  case 1
  show ?case by simp
next
  case (2 u)
  show ?case
    using unat_16_less [of u] by (simp add: scalar_value_def is_surrogate_def)
next
  case (3 u v rest)
  have pair: "scalar_value (0x10000 + (unat u - 0xD800) * 0x400 + (unat v - 0xDC00))"
    if "is_high_surrogate u" "is_low_surrogate v"
    using that unfolding scalar_value_def is_high_surrogate_def is_low_surrogate_def
    by linarith
  have single: "scalar_value (unat u)" if "\<not> is_surrogate u"
    using that unat_16_less [of u] by (simp add: scalar_value_def is_surrogate_def)
  show ?case
    using 3 pair single by (simp add: scalar_value_def)
qed

lemma utf16_decode_Nil_iff: "utf16_decode s = [] \<longleftrightarrow> s = []"
  by (induction s rule: utf16_decode.induct) simp_all

lemma utf16_pair:
  assumes "is_high_surrogate u" "is_low_surrogate v"
  shows "utf16_encode_scalar (0x10000 + (unat u - 0xD800) * 0x400 + (unat v - 0xDC00)) = [u, v]"
proof -
  define h where "h = unat u - 0xD800"
  define l where "l = unat v - 0xDC00"
  have l: "l < 0x400" and hu: "0xD800 + h = unat u" and lv: "0xDC00 + l = unat v"
    using assms unfolding h_def l_def is_high_surrogate_def is_low_surrogate_def
    by linarith+
  have "(h * 0x400 + l) div 0x400 = h" "(h * 0x400 + l) mod 0x400 = l"
    using l by simp_all
  then show ?thesis
    unfolding utf16_encode_scalar_def h_def [symmetric] l_def [symmetric]
    by (simp add: hu lv)
qed

lemma utf16_encode_decode:
  "String_isWellFormed s \<Longrightarrow> utf16_encode (utf16_decode s) = s"
proof (induction s rule: String_isWellFormed.induct)
  case 1
  show ?case by (simp add: utf16_encode_def)
next
  case (2 u)
  then show ?case
    using unat_16_less [of u] by (simp add: utf16_encode_def utf16_encode_scalar_def)
next
  case (3 u v rest)
  show ?case
  proof (cases "is_high_surrogate u")
    case True
    with 3 have "is_low_surrogate v" "utf16_encode (utf16_decode rest) = rest"
      by simp_all
    with True utf16_pair [of u v] show ?thesis
      by (simp add: utf16_encode_def)
  next
    case False
    with 3 have ns: "\<not> is_surrogate u" and ih: "utf16_encode (utf16_decode (v # rest)) = v # rest"
      by simp_all
    from ns False ih unat_16_less [of u] show ?thesis
      by (simp add: utf16_encode_def utf16_encode_scalar_def)
  qed
qed


subsection \<open>Hexadecimal digits\<close>

lemma unat_of_nat_16: "m < 0x10000 \<Longrightarrow> unat (of_nat m :: 16 word) = m"
  by (simp add: unat_of_nat)

lemma unat_hex_digit:
  assumes "n < 16"
  shows "unat (hex_digit n) = (if n < 10 then 48 + n else 87 + n)"
proof -
  have "unat (of_nat (48 + n) :: 16 word) = 48 + n" "unat (of_nat (87 + n) :: 16 word) = 87 + n"
    using assms by (intro unat_of_nat_16; linarith)+
  then show ?thesis
    unfolding hex_digit_def by (cases "n < 10") (simp_all only: if_True if_False)
qed

lemma hex2bin_hex_digit:
  assumes "n < 16"
  shows "hex2bin (hex_digit n) = Some n"
proof -
  have "unat (hex_digit n) mod 256 = (if n < 10 then 48 + n else 87 + n)"
    using assms by (simp add: unat_hex_digit)
  then show ?thesis
    unfolding hex2bin_def hex_value_def using assms by simp
qed

lemma unat_8_less: "unat (b :: 8 word) < 0x100"
  using unsigned_less [of b, where ?'a = nat] by simp

lemma Buffer_from_hex_toString_hex: "Buffer_from_hex (Buffer_toString_hex buf) = buf"
proof (induction buf)
  case Nil
  show ?case by (simp add: Buffer_toString_hex_def)
next
  case (Cons b buf)
  have hi: "hex2bin (hex_digit (unat b div 16)) = Some (unat b div 16)"
    using unat_8_less [of b] by (intro hex2bin_hex_digit) simp
  have lo: "hex2bin (hex_digit (unat b mod 16)) = Some (unat b mod 16)"
    by (intro hex2bin_hex_digit) simp
  from Cons hi lo show ?case
    by (simp add: Buffer_toString_hex_def)
qed

lemma Buffer_toString_hex_Nil_iff: "Buffer_toString_hex buf = [] \<longleftrightarrow> buf = []"
  by (cases buf) (simp_all add: Buffer_toString_hex_def)

subsection \<open>The codec functions\<close>

lemma String_replace_0x: "String_replace (js ''0x'' @ h) (js ''0x'') [] = h"
  by (simp add: js_def)

lemma Buffer_utf8_roundtrip:
  assumes "String_isWellFormed s"
  shows "Buffer_toString_utf8 (Buffer_from_utf8 s) = s"
proof -
  have sc: "list_all scalar_value (utf16_decode s)"
    by (rule utf16_decode_scalar)
  have "map unat (Buffer_from_utf8 s) = utf8_encode (utf16_decode s)"
    unfolding Buffer_from_utf8_def by (rule map_unat_of_nat) (rule utf8_encode_byte [OF sc])
  then show ?thesis
    using assms sc by (simp add: Buffer_toString_utf8_def utf8_decode_encode utf16_encode_decode)
qed

lemma Buffer_from_utf8_Nil_iff: "Buffer_from_utf8 s = [] \<longleftrightarrow> s = []"
  by (simp add: Buffer_from_utf8_def utf8_encode_Nil_iff utf16_decode_Nil_iff)

lemma decodeHex_0x00: "decodeHex (js ''0x00'') = []"
  by (simp add: decodeHex_def js_def Buffer_toString_utf8_def hex2bin_def hex_value_def
      utf16_encode_def
      utf16_encode_scalar_def)

lemma decodeHex_encodeHex_general:
  assumes "String_isWellFormed s"
  shows "decodeHex (encodeHex s) = (if s = [0] then [] else s)"
proof (cases "s = []")
  case True
  then have "encodeHex s = js ''0x00''"
    by (simp add: encodeHex_def Buffer_toString_hex_def Buffer_from_utf8_def utf8_encode_def)
  with True show ?thesis
    by (simp add: decodeHex_0x00)
next
  case False
  then have ne: "Buffer_toString_hex (Buffer_from_utf8 s) \<noteq> []"
    by (simp add: Buffer_toString_hex_Nil_iff Buffer_from_utf8_Nil_iff)
  then have enc: "encodeHex s = js ''0x'' @ Buffer_toString_hex (Buffer_from_utf8 s)"
    by (simp add: encodeHex_def)
  show ?thesis
    unfolding enc decodeHex_def String_replace_0x Buffer_from_hex_toString_hex
      Buffer_utf8_roundtrip [OF assms]
    by simp
qed

section \<open>Properties of \<^verbatim>\<open>URLSearchParams\<close>\<close>

subsection \<open>ASCII text\<close>

lemma high_surrogate_is_surrogate: "is_high_surrogate u \<Longrightarrow> is_surrogate u"
  unfolding is_high_surrogate_def is_surrogate_def by linarith

lemma utf16_decode_plain:
  "\<not> is_surrogate u \<Longrightarrow> utf16_decode (u # rest) = unat u # utf16_decode rest"
  using high_surrogate_is_surrogate [of u] by (cases rest) auto

lemma utf8_encode_Cons_ascii: "c < 0x80 \<Longrightarrow> utf8_encode (c # cs) = c # utf8_encode cs"
  by (simp add: utf8_encode_def utf8_encode_scalar_def)

lemma ascii_unit:
  assumes "x < 0x80"
  shows "unat (of_nat x :: 16 word) = x" "\<not> is_surrogate (of_nat x)"
proof -
  show u: "unat (of_nat x :: 16 word) = x"
    using assms by (intro unat_of_nat_16) linarith
  show "\<not> is_surrogate (of_nat x)"
    unfolding is_surrogate_def u using assms by linarith
qed

lemma utf8_bytes_of_ascii:
  "list_all (\<lambda>b. b < 0x80) xs \<Longrightarrow> utf8_encode (utf16_decode (map of_nat xs)) = xs"
proof (induction xs)
  case Nil
  show ?case by (simp add: utf8_encode_def)
next
  case (Cons x xs)
  then have x: "x < 0x80" and ih: "utf8_encode (utf16_decode (map of_nat xs)) = xs"
    by simp_all
  have "utf16_decode (map of_nat (x # xs)) = x # utf16_decode (map of_nat xs)"
    using ascii_unit [OF x] by (simp add: utf16_decode_plain)
  with x ih show ?case
    by (simp add: utf8_encode_Cons_ascii)
qed

subsection \<open>Percent-encoding\<close>

lemma upper_hex_digit_range:
  "n < 16 \<Longrightarrow> (48 \<le> upper_hex_digit n \<and> upper_hex_digit n \<le> 57)
     \<or> (65 \<le> upper_hex_digit n \<and> upper_hex_digit n \<le> 70)"
  unfolding upper_hex_digit_def by (cases "n < 10") simp_all

lemma hex_value_upper_hex_digit: "n < 16 \<Longrightarrow> hex_value (upper_hex_digit n) = Some n"
  unfolding upper_hex_digit_def hex_value_def by (cases "n < 10") simp_all

lemma upper_hex_digit_char: "n < 16 \<Longrightarrow> urlencoded_char (upper_hex_digit n)"
  using upper_hex_digit_range [of n] unfolding urlencoded_char_def by linarith

lemma upper_hex_digit_not_plus: "n < 16 \<Longrightarrow> upper_hex_digit n \<noteq> 0x2B"
  using upper_hex_digit_range [of n] by linarith

lemma urlencoded_keep_char: "urlencoded_keep b \<Longrightarrow> urlencoded_char b \<and> b \<noteq> 0x2B \<and> b \<noteq> 0x25"
  unfolding urlencoded_keep_def urlencoded_char_def by linarith

lemma urlencoded_byte_chars:
  assumes "b < 256"
  shows "list_all urlencoded_char (urlencoded_byte b)"
proof -
  have "b div 16 < 16"
    using assms by simp
  then show ?thesis
    using urlencoded_keep_char [of b]
    by (simp add: urlencoded_byte_def upper_hex_digit_char) (simp add: urlencoded_char_def)
qed

lemma percent_decode_byte:
  assumes "b < 256"
  shows "percent_decode (plus_to_space (urlencoded_byte b @ rest))
         = b # percent_decode (plus_to_space rest)"
proof -
  have d: "b div 16 < 16"
    using assms by simp
  consider "b = 0x20" | "b \<noteq> 0x20" "urlencoded_keep b" | "b \<noteq> 0x20" "\<not> urlencoded_keep b"
    by blast
  then show ?thesis
  proof cases
    case 1
    then show ?thesis by (simp add: urlencoded_byte_def)
  next
    case 2
    with urlencoded_keep_char [of b] show ?thesis by (simp add: urlencoded_byte_def)
  next
    case 3
    then have enc: "urlencoded_byte b = [0x25, upper_hex_digit (b div 16), upper_hex_digit (b mod 16)]"
      by (simp add: urlencoded_byte_def)
    show ?thesis
      unfolding enc using d
      by (simp add: upper_hex_digit_not_plus hex_value_upper_hex_digit)
  qed
qed

lemma percent_decode_bytes:
  "list_all (\<lambda>b. b < 256) bs \<Longrightarrow>
   percent_decode (plus_to_space (concat (map urlencoded_byte bs))) = bs"
proof (induction bs)
  case Nil
  show ?case by simp
next
  case (Cons b bs)
  then have "b < 256" and ih: "percent_decode (plus_to_space (concat (map urlencoded_byte bs))) = bs"
    by simp_all
  from percent_decode_byte [OF \<open>b < 256\<close>, of "concat (map urlencoded_byte bs)"] ih
  show ?case by simp
qed

lemma urlencoded_bytes_chars:
  "list_all (\<lambda>b. b < 256) bs \<Longrightarrow> list_all urlencoded_char (concat (map urlencoded_byte bs))"
  by (induction bs) (simp_all add: urlencoded_byte_chars)

lemma urlencoded_string_chars: "list_all urlencoded_char (urlencoded_string s)"
  unfolding urlencoded_string_def
  by (intro urlencoded_bytes_chars utf8_encode_byte utf16_decode_scalar)

lemma urlencoded_decode_string:
  assumes "String_isWellFormed s"
  shows "urlencoded_decode (urlencoded_string s) = s"
proof -
  have "percent_decode (plus_to_space (urlencoded_string s)) = utf8_encode (utf16_decode s)"
    unfolding urlencoded_string_def
    by (intro percent_decode_bytes utf8_encode_byte utf16_decode_scalar)
  then show ?thesis
    using assms utf16_decode_scalar [of s]
    by (simp add: urlencoded_decode_def utf8_decode_encode utf16_encode_decode)
qed


subsection \<open>Serialising and parsing\<close>

lemma urlencoded_serialize_Cons:
  "urlencoded_serialize (p # ps) =
     (if ps = [] then pair_bytes p else pair_bytes p @ 0x26 # urlencoded_serialize ps)"
  by (cases ps) simp_all

lemma urlencoded_char_set:
  assumes "list_all urlencoded_char xs"
  shows "0x26 \<notin> set xs" "0x3D \<notin> set xs" "list_all (\<lambda>c. c < 0x80 \<and> c \<noteq> 0x3F) xs"
  using assms by (auto simp: list_all_iff urlencoded_char_def)

lemma pair_bytes_no_amp: "0x26 \<notin> set (pair_bytes p)"
  using urlencoded_char_set(1) [OF urlencoded_string_chars]
  by (simp add: pair_bytes_def)

lemma pair_bytes_nonempty: "pair_bytes p \<noteq> []"
  by (simp add: pair_bytes_def)

lemma pair_bytes_ascii: "list_all (\<lambda>c. c < 0x80 \<and> c \<noteq> 0x3F) (pair_bytes p)"
  using urlencoded_char_set(3) [OF urlencoded_string_chars]
  by (simp add: pair_bytes_def)

lemma urlencoded_serialize_ascii:
  "list_all (\<lambda>c. c < 0x80 \<and> c \<noteq> 0x3F) (urlencoded_serialize ps)"
  by (induction ps) (simp_all add: urlencoded_serialize_Cons pair_bytes_ascii)

lemma split_urlencoded_serialize:
  "split_loop 0x26 [] (urlencoded_serialize (p # ps)) = map pair_bytes (p # ps)"
proof (induction ps arbitrary: p)
  case Nil
  show ?case
    using split_loop_no_sep [OF pair_bytes_no_amp, of "[]" p]
    by (simp add: urlencoded_serialize_Cons)
next
  case (Cons q qs)
  have "urlencoded_serialize (p # q # qs) = pair_bytes p @ 0x26 # urlencoded_serialize (q # qs)"
    by (simp add: urlencoded_serialize_Cons)
  then show ?case
    using split_loop_first [OF pair_bytes_no_amp, of "[]" p "urlencoded_serialize (q # qs)"]
      Cons.IH [of q]
    by simp
qed

lemma takeWhile_until: "x \<notin> set xs \<Longrightarrow> takeWhile (\<lambda>b. b \<noteq> x) (xs @ x # ys) = xs"
  by (induction xs) auto

lemma dropWhile_until: "x \<notin> set xs \<Longrightarrow> dropWhile (\<lambda>b. b \<noteq> x) (xs @ x # ys) = x # ys"
  by (induction xs) auto

lemma name_of_pair_bytes:
  "takeWhile (\<lambda>b. b \<noteq> 0x3D) (pair_bytes p) = urlencoded_string (fst p)"
  using urlencoded_char_set(2) [OF urlencoded_string_chars, of "fst p"]
  by (simp add: pair_bytes_def takeWhile_until)

lemma value_of_pair_bytes:
  "drop 1 (dropWhile (\<lambda>b. b \<noteq> 0x3D) (pair_bytes p)) = urlencoded_string (snd p)"
  using urlencoded_char_set(2) [OF urlencoded_string_chars, of "fst p"]
  by (simp add: pair_bytes_def dropWhile_until)

lemma urlencoded_parse_serialize:
  assumes "list_all (\<lambda>p. String_isWellFormed (fst p) \<and> String_isWellFormed (snd p)) ps"
  shows "urlencoded_parse (urlencoded_serialize ps) = ps"
proof (cases ps)
  case Nil
  then show ?thesis
    by (simp add: urlencoded_parse_def)
next
  case (Cons q qs)
  have keep: "filter (\<lambda>bytes. bytes \<noteq> []) (map pair_bytes ps) = map pair_bytes ps"
    by (simp add: filter_id_conv pair_bytes_nonempty)
  have each: "(urlencoded_decode (takeWhile (\<lambda>b. b \<noteq> 0x3D) (pair_bytes p)),
               urlencoded_decode (drop 1 (dropWhile (\<lambda>b. b \<noteq> 0x3D) (pair_bytes p)))) = p"
    if "p \<in> set ps" for p
  proof -
    from that assms have "String_isWellFormed (fst p)" "String_isWellFormed (snd p)"
      by (auto simp: list_all_iff)
    then show ?thesis
      unfolding name_of_pair_bytes value_of_pair_bytes
      by (simp add: urlencoded_decode_string)
  qed
  have "urlencoded_parse (urlencoded_serialize ps) =
          map (\<lambda>bytes. (urlencoded_decode (takeWhile (\<lambda>b. b \<noteq> 0x3D) bytes),
                         urlencoded_decode (drop 1 (dropWhile (\<lambda>b. b \<noteq> 0x3D) bytes))))
            (map pair_bytes ps)"
    unfolding urlencoded_parse_def Cons split_urlencoded_serialize
    using keep [unfolded Cons] by simp
  also have "\<dots> = ps"
    using each by (simp add: map_idI)
  finally show ?thesis .
qed

lemma strip_question_mark_ascii:
  assumes "list_all (\<lambda>c. c < 0x80 \<and> c \<noteq> 0x3F) xs"
  shows "(case map of_nat xs :: jsstring of [] \<Rightarrow> [] | c # cs \<Rightarrow> if c = 0x3F then cs else map of_nat xs)
         = map of_nat xs"
proof (cases xs)
  case Nil
  then show ?thesis by simp
next
  case (Cons x xs')
  with assms have "x < 0x80" "x \<noteq> 0x3F"
    by simp_all
  then have "(of_nat x :: 16 word) \<noteq> 0x3F"
    using ascii_unit(1) [of x] by auto
  with Cons show ?thesis by simp
qed

lemma URLSearchParams_roundtrip:
  assumes "list_all (\<lambda>p. String_isWellFormed (fst p) \<and> String_isWellFormed (snd p)) ps"
  shows "URLSearchParams_new (URLSearchParams_toString ps) = ps"
proof -
  have ascii: "list_all (\<lambda>c. c < 0x80 \<and> c \<noteq> 0x3F) (urlencoded_serialize ps)"
    by (rule urlencoded_serialize_ascii)
  then have "list_all (\<lambda>c. c < 0x80) (urlencoded_serialize ps)"
    by (simp add: list_all_iff)
  then have bytes: "utf8_encode (utf16_decode (map of_nat (urlencoded_serialize ps)))
      = urlencoded_serialize ps"
    by (rule utf8_bytes_of_ascii)
  show ?thesis
    unfolding URLSearchParams_new_def URLSearchParams_toString_def
      strip_question_mark_ascii [OF ascii] bytes
    by (rule urlencoded_parse_serialize [OF assms])
qed


subsection \<open>Evaluating concrete strings\<close>

lemmas locator_keys = EncodedPoolLocatorEnum_Address_def EncodedPoolLocatorEnum_Schema_def
  EncodedPoolLocatorEnum_Standard_def EncodedPoolLocatorEnum_Type_def

lemmas surrogate_defs = is_surrogate_def is_high_surrogate_def is_low_surrogate_def


lemmas parse_defs = URLSearchParams_new_def urlencoded_parse_def urlencoded_decode_def
  utf8_encode_def utf8_encode_scalar_def utf16_encode_def utf16_encode_scalar_def
  continuation_def hex_value_def surrogate_defs js_def

lemmas serialize_defs = URLSearchParams_toString_def pair_bytes_def urlencoded_string_def
  urlencoded_byte_def urlencoded_keep_def upper_hex_digit_def

section \<open>The byte-string codec: the claims\<close>

text \<open>
  C4, as stated: for every string \<open>s\<close> that does not contain a NUL character,
  \<open>decodeHex (encodeHex s) = s\<close>. A string may hold an unpaired surrogate, which has no
  UTF-8 form: \<^verbatim>\<open>Buffer.from\<close> writes U+FFFD in its place, so the string that is the
  single code unit D800 is encoded as "0xefbfbd" and comes back as U+FFFD.
\<close>

theorem decodeHex_encodeHex_counterexample:
  "0 \<notin> set [0xD800 :: 16 word]
   \<and> encodeHex [0xD800] = js ''0xefbfbd''
   \<and> decodeHex (encodeHex [0xD800]) = [0xFFFD]
   \<and> decodeHex (encodeHex [0xD800]) \<noteq> [0xD800]"
  by (simp add: encodeHex_def decodeHex_def Buffer_from_utf8_def Buffer_toString_utf8_def
      Buffer_toString_hex_def hex_digit_def hex2bin_def hex_value_def utf8_encode_def
      utf8_encode_scalar_def utf16_encode_def utf16_encode_scalar_def continuation_def
      is_surrogate_def js_def)

text \<open>
  C4, amended: for every well-formed string \<open>s\<close> (one without an unpaired surrogate,
  that is, a string that has a UTF-8 form) that does not contain a NUL character,
  \<open>decodeHex (encodeHex s) = s\<close>; the empty string is one of them.
\<close>

theorem decodeHex_encodeHex:
  assumes "String_isWellFormed s" and "0 \<notin> set s"
  shows "decodeHex (encodeHex s) = s \<and> decodeHex (encodeHex []) = []"
proof -
  from assms(2) have "s \<noteq> [0]"
    by auto
  with decodeHex_encodeHex_general [OF assms(1)] decodeHex_encodeHex_general [of "[]"]
  show ?thesis
    by simp
qed

theorem decodeHex_encodeHex_witness:
  "String_isWellFormed [0x48, 0xE9, 0x20AC, 0xD83D, 0xDE00]
   \<and> 0 \<notin> set [0x48, 0xE9, 0x20AC, 0xD83D, 0xDE00 :: 16 word]
   \<and> decodeHex (encodeHex [0x48, 0xE9, 0x20AC, 0xD83D, 0xDE00])
       = [0x48, 0xE9, 0x20AC, 0xD83D, 0xDE00]"
proof -
  have wf: "String_isWellFormed [0x48, 0xE9, 0x20AC, 0xD83D, 0xDE00]"
    by (simp add: is_surrogate_def is_high_surrogate_def is_low_surrogate_def)
  have nz: "0 \<notin> set [0x48, 0xE9, 0x20AC, 0xD83D, 0xDE00 :: 16 word]"
    by simp
  from decodeHex_encodeHex [OF wf nz] wf nz show ?thesis
    by blast
qed

text \<open>
  C5. \<open>encodeHex\<close> of the empty string is exactly "0x00", and no string is encoded as
  "0x"; \<open>decodeHex\<close> of "0x00" is the empty string; and \<open>decodeHex\<close> returns the empty
  string for every input whose decoded text is exactly one NUL character.
\<close>

theorem encodeHex_empty_sentinel:
  "encodeHex [] = js ''0x00''
   \<and> encodeHex s \<noteq> js ''0x''
   \<and> decodeHex (js ''0x00'') = []
   \<and> (Buffer_toString_utf8 (Buffer_from_hex (String_replace data (js ''0x'') [])) = [0]
        \<longrightarrow> decodeHex data = [])"
proof -
  have "encodeHex [] = js ''0x00''"
    by (simp add: encodeHex_def Buffer_toString_hex_def Buffer_from_utf8_def utf8_encode_def)
  moreover have "encodeHex s \<noteq> js ''0x''"
    by (simp add: encodeHex_def js_def Let_def)
  moreover note decodeHex_0x00
  moreover have "Buffer_toString_utf8 (Buffer_from_hex (String_replace data (js ''0x'') [])) = [0]
        \<longrightarrow> decodeHex data = []"
    by (simp add: decodeHex_def)
  ultimately show ?thesis
    by blast
qed

theorem encodeHex_empty_sentinel_witness:
  "Buffer_toString_utf8 (Buffer_from_hex (String_replace (js ''00'') (js ''0x'') [])) = [0]
   \<and> decodeHex (js ''00'') = []"
proof -
  have h: "Buffer_toString_utf8 (Buffer_from_hex (String_replace (js ''00'') (js ''0x'') [])) = [0]"
    by (simp add: js_def Buffer_toString_utf8_def hex2bin_def hex_value_def utf16_encode_def
        utf16_encode_scalar_def)
  with encodeHex_empty_sentinel [of "[]" "js ''00''"] show ?thesis
    by blast
qed

section \<open>Subscription names: the claims\<close>

text \<open>
  C7. \<^verbatim>\<open>unpackSubscriptionName("fly", "fly:LOCATORSTR:Transfer")\<close> is
  \<^verbatim>\<open>{prefix: "fly", poolLocator: "LOCATORSTR", event: "Transfer"}\<close>; and for every
  \<open>data\<close> that does not start with \<open>prefix + ":"\<close> the function returns a record
  (it has no failing branch) whose \<open>poolLocator\<close> and \<open>event\<close> are both undefined, as for
  \<^verbatim>\<open>unpackSubscriptionName("fly", "other:x")\<close>.
\<close>

theorem unpackSubscriptionName_soft_failure:
  "unpackSubscriptionName (js ''fly'') (js ''fly:LOCATORSTR:Transfer'') =
     \<lparr> prefix = js ''fly'', poolLocator = Some (js ''LOCATORSTR''),
       event = Some (js ''Transfer'') \<rparr>
   \<and> (\<not> String_startsWith data (pre @ js '':'') \<longrightarrow>
        unpackSubscriptionName pre data =
          \<lparr> prefix = pre, poolLocator = None, event = None \<rparr>)"
proof
  show "unpackSubscriptionName (js ''fly'') (js ''fly:LOCATORSTR:Transfer'') =
     \<lparr> prefix = js ''fly'', poolLocator = Some (js ''LOCATORSTR''),
       event = Some (js ''Transfer'') \<rparr>"
    by (simp add: unpackSubscriptionName_def String_startsWith_def String_slice_def
        String_split_def Array_index_def js_def)
  show "\<not> String_startsWith data (pre @ js '':'') \<longrightarrow>
        unpackSubscriptionName pre data =
          \<lparr> prefix = pre, poolLocator = None, event = None \<rparr>"
    by (simp add: unpackSubscriptionName_def)
qed

theorem unpackSubscriptionName_soft_failure_witness:
  "\<not> String_startsWith (js ''other:x'') (js ''fly'' @ js '':'')
   \<and> unpackSubscriptionName (js ''fly'') (js ''other:x'') =
       \<lparr> prefix = js ''fly'', poolLocator = None, event = None \<rparr>"
proof -
  have h: "\<not> String_startsWith (js ''other:x'') (js ''fly'' @ js '':'')"
    by (simp add: String_startsWith_def js_def)
  with unpackSubscriptionName_soft_failure [of "js ''other:x''" "js ''fly''"]
  show ?thesis by blast
qed

text \<open>
  C10. For every prefix \<open>p\<close>, locator string \<open>l\<close> without the delimiter and event string
  \<open>e\<close>, unpacking \<open>p + ":" + l + ":" + e\<close> (which is what \<open>packSubscriptionName\<close>
  builds) keeps at most two parts of the remainder: the locator is \<open>l\<close> and the event is
  the portion of \<open>e\<close> before its first \<open>":"\<close>; what follows the second delimiter is
  discarded, so an event name that contains the delimiter is not recovered.
\<close>

theorem unpackSubscriptionName_truncates_event:
  assumes "58 \<notin> set l"
  shows "packSubscriptionName p l (Some e) = p @ js '':'' @ l @ js '':'' @ e
   \<and> unpackSubscriptionName p (p @ js '':'' @ l @ js '':'' @ e) =
       \<lparr> prefix = p, poolLocator = Some l,
         event = Some (takeWhile (\<lambda>c. c \<noteq> 58) e) \<rparr>
   \<and> (58 \<in> set e \<longrightarrow>
        event (unpackSubscriptionName p (packSubscriptionName p l (Some e))) \<noteq> Some e)"
proof -
  have colon: "js '':'' = [58]"
    by (simp add: js_def)
  have pack: "packSubscriptionName p l (Some e) = p @ js '':'' @ l @ js '':'' @ e"
    by (simp add: packSubscriptionName_def)
  have parts: "String_split (String_slice (p @ js '':'' @ l @ js '':'' @ e) (length p + 1)) 58 2
      = [l, takeWhile (\<lambda>c. c \<noteq> 58) e]"
    using take2_split_loop [OF assms, of e]
    by (simp add: String_split_def String_slice_def colon)
  have unpack: "unpackSubscriptionName p (p @ js '':'' @ l @ js '':'' @ e) =
       \<lparr> prefix = p, poolLocator = Some l,
         event = Some (takeWhile (\<lambda>c. c \<noteq> 58) e) \<rparr>"
    unfolding unpackSubscriptionName_def Let_def parts
    by (simp add: String_startsWith_def Array_index_def)
  have "takeWhile (\<lambda>c. c \<noteq> 58) e \<noteq> e" if "58 \<in> set e"
    using that by (simp add: takeWhile_eq_all_conv)
  with pack unpack show ?thesis
    by simp
qed

theorem unpackSubscriptionName_truncates_event_witness:
  "(58 :: 16 word) \<notin> set (js ''LOC'') \<and> 58 \<in> set (js ''Token:Transfer'')
   \<and> unpackSubscriptionName (js ''fly'') (js ''fly:LOC:Token:Transfer'') =
       \<lparr> prefix = js ''fly'', poolLocator = Some (js ''LOC''), event = Some (js ''Token'') \<rparr>
   \<and> event (unpackSubscriptionName (js ''fly'')
        (packSubscriptionName (js ''fly'') (js ''LOC'') (Some (js ''Token:Transfer''))))
       \<noteq> Some (js ''Token:Transfer'')"
proof -
  have h: "(58 :: 16 word) \<notin> set (js ''LOC'')"
    by (simp add: js_def)
  have e: "(58 :: 16 word) \<in> set (js ''Token:Transfer'')"
    by (simp add: js_def)
  from unpackSubscriptionName_truncates_event [OF h, of "js ''fly''" "js ''Token:Transfer''"] e h
  show ?thesis
    by (simp add: js_def)
qed

section \<open>Schema names: the claims\<close>

text \<open>
  C3. \<open>getTokenSchema\<close> is a function of the fungibility type and the \<open>withData\<close> flag
  alone and returns the four canonical names: (fungible, true) gives "ERC20WithData",
  (fungible, false) "ERC20NoData", (nonfungible, true) "ERC721WithData", (nonfungible,
  false) "ERC721NoData"; an omitted \<open>withData\<close> defaults to true.
\<close>

theorem getTokenSchema_canonical:
  "getTokenSchema TokenType_FUNGIBLE (Some True) = js ''ERC20WithData''
   \<and> getTokenSchema TokenType_FUNGIBLE (Some False) = js ''ERC20NoData''
   \<and> getTokenSchema TokenType_NONFUNGIBLE (Some True) = js ''ERC721WithData''
   \<and> getTokenSchema TokenType_NONFUNGIBLE (Some False) = js ''ERC721NoData''
   \<and> getTokenSchema t None = getTokenSchema t (Some True)"
  by (simp add: getTokenSchema_def TokenType_FUNGIBLE_def TokenType_NONFUNGIBLE_def js_def)

text \<open>
  C9, as stated: a type string other than "fungible" and "nonfungible" is never mapped
  to a canonical schema name. The function has no rejecting branch: "funkible", the
  invalid type of the test suite, is mapped to "ERC721WithData".
\<close>

theorem getTokenSchema_unrecognized_counterexample:
  "js ''funkible'' \<noteq> TokenType_FUNGIBLE \<and> js ''funkible'' \<noteq> TokenType_NONFUNGIBLE
   \<and> getTokenSchema (js ''funkible'') (Some True) = js ''ERC721WithData''"
  by (simp add: getTokenSchema_def TokenType_FUNGIBLE_def TokenType_NONFUNGIBLE_def js_def)

text \<open>
  C9, amended: \<open>getTokenSchema\<close> itself rejects nothing. It tests only whether the type
  equals "fungible": every other type value, "nonfungible" or an unrecognized string, is
  mapped to the ERC721 schema name that \<open>withData\<close> selects, "ERC721WithData" or
  "ERC721NoData".
\<close>

theorem getTokenSchema_not_fungible:
  assumes "t \<noteq> TokenType_FUNGIBLE"
  shows "getTokenSchema t w = getTokenSchema TokenType_NONFUNGIBLE w
   \<and> getTokenSchema t w \<in> {js ''ERC721WithData'', js ''ERC721NoData''}"
  using assms
  by (simp add: getTokenSchema_def TokenType_FUNGIBLE_def TokenType_NONFUNGIBLE_def js_def
      split: option.split)

theorem getTokenSchema_not_fungible_witness:
  "js ''funkible'' \<noteq> TokenType_FUNGIBLE
   \<and> getTokenSchema (js ''funkible'') None = getTokenSchema TokenType_NONFUNGIBLE None
   \<and> getTokenSchema (js ''funkible'') None \<in> {js ''ERC721WithData'', js ''ERC721NoData''}"
proof -
  have h: "js ''funkible'' \<noteq> TokenType_FUNGIBLE"
    by (simp add: TokenType_FUNGIBLE_def js_def)
  from getTokenSchema_not_fungible [OF h, of None] h show ?thesis
    by blast
qed

section \<open>Pool locators: the claims\<close>

text \<open>
  C8. For every locator record, \<open>validatePoolLocator\<close> returns false if and only if at
  least one of the address, schema and type fields is null; it returns true exactly when
  all three are non-null.
\<close>

theorem validatePoolLocator_iff:
  "(validatePoolLocator poolLoc = False) =
     (address poolLoc = None \<or> schema poolLoc = None \<or> type poolLoc = None)
   \<and> (validatePoolLocator poolLoc = True) =
     (\<exists>a s t. address poolLoc = Some a \<and> schema poolLoc = Some s \<and> type poolLoc = Some t)"
  by (auto simp: validatePoolLocator_def)

text \<open>
  C1, as stated: for every valid locator \<open>L\<close>, unpacking the packed \<open>L\<close> gives back its
  three fields. A string may hold an unpaired surrogate, which has no UTF-8 form: the
  serialiser writes U+FFFD for it (\<^verbatim>\<open>address=%EF%BF%BD\<close>), so an address that is the
  single code unit D800 comes back as U+FFFD.
\<close>

theorem unpackPoolLocator_packPoolLocator_counterexample:
  "packPoolLocator
      \<lparr> IValidPoolLocator.address = [0xD800], schema = js ''ERC20WithData'',
        type = TokenType_FUNGIBLE \<rparr>
     = js ''address=%EF%BF%BD&schema=ERC20WithData&type=fungible''
   \<and> address (unpackPoolLocator (packPoolLocator
      \<lparr> IValidPoolLocator.address = [0xD800], schema = js ''ERC20WithData'',
        type = TokenType_FUNGIBLE \<rparr>)) = Some [0xFFFD]
   \<and> address (unpackPoolLocator (packPoolLocator
      \<lparr> IValidPoolLocator.address = [0xD800], schema = js ''ERC20WithData'',
        type = TokenType_FUNGIBLE \<rparr>)) \<noteq> Some [0xD800]"
  by (simp add: packPoolLocator_def unpackPoolLocator_def serialize_defs parse_defs
      TokenType_FUNGIBLE_def locator_keys URLSearchParams_get_def)

text \<open>
  C1, amended: for every valid locator \<open>L\<close> whose address, schema and type are well-formed
  strings (without unpaired surrogates), \<open>unpackPoolLocator (packPoolLocator L)\<close> has the
  address, the schema and the type of \<open>L\<close>, each unchanged, and is valid.
\<close>

theorem unpackPoolLocator_packPoolLocator:
  assumes "String_isWellFormed (IValidPoolLocator.address locator)"
    and "String_isWellFormed (IValidPoolLocator.schema locator)"
    and "String_isWellFormed (IValidPoolLocator.type locator)"
  shows "unpackPoolLocator (packPoolLocator locator) =
           \<lparr> address = Some (IValidPoolLocator.address locator),
             schema = Some (IValidPoolLocator.schema locator),
             type = Some (IValidPoolLocator.type locator) \<rparr>
         \<and> validatePoolLocator (unpackPoolLocator (packPoolLocator locator))"
proof -
  define encoded where "encoded =
     [(EncodedPoolLocatorEnum_Address, IValidPoolLocator.address locator),
      (EncodedPoolLocatorEnum_Schema, IValidPoolLocator.schema locator),
      (EncodedPoolLocatorEnum_Type, IValidPoolLocator.type locator)]"
  have keys: "String_isWellFormed EncodedPoolLocatorEnum_Address"
      "String_isWellFormed EncodedPoolLocatorEnum_Schema"
      "String_isWellFormed EncodedPoolLocatorEnum_Type"
    by (simp_all add: locator_keys js_def surrogate_defs)
  have "list_all (\<lambda>p. String_isWellFormed (fst p) \<and> String_isWellFormed (snd p)) encoded"
    using assms keys by (simp add: encoded_def)
  then have parsed: "URLSearchParams_new (packPoolLocator locator) = encoded"
    unfolding packPoolLocator_def Let_def encoded_def [symmetric]
    by (rule URLSearchParams_roundtrip)
  have get:
    "URLSearchParams_get encoded EncodedPoolLocatorEnum_Address
       = Some (IValidPoolLocator.address locator)"
    "URLSearchParams_get encoded EncodedPoolLocatorEnum_Schema
       = Some (IValidPoolLocator.schema locator)"
    "URLSearchParams_get encoded EncodedPoolLocatorEnum_Type
       = Some (IValidPoolLocator.type locator)"
    by (simp_all add: URLSearchParams_get_def encoded_def locator_keys js_def)
  show ?thesis
    unfolding unpackPoolLocator_def Let_def parsed get
    by (simp add: validatePoolLocator_def)
qed

theorem unpackPoolLocator_packPoolLocator_witness:
  "String_isWellFormed (js ''0x123456'') \<and> String_isWellFormed (js ''ERC20WithData'')
   \<and> String_isWellFormed TokenType_FUNGIBLE
   \<and> packPoolLocator
        \<lparr> IValidPoolLocator.address = js ''0x123456'', schema = js ''ERC20WithData'',
          type = TokenType_FUNGIBLE \<rparr>
       = js ''address=0x123456&schema=ERC20WithData&type=fungible''
   \<and> unpackPoolLocator (js ''address=0x123456&schema=ERC20WithData&type=fungible'')
       = \<lparr> address = Some (js ''0x123456''), schema = Some (js ''ERC20WithData''),
           type = Some TokenType_FUNGIBLE \<rparr>"
proof -
  let ?L = "\<lparr> IValidPoolLocator.address = js ''0x123456'', schema = js ''ERC20WithData'',
          type = TokenType_FUNGIBLE \<rparr>"
  have wf: "String_isWellFormed (js ''0x123456'')" "String_isWellFormed (js ''ERC20WithData'')"
      "String_isWellFormed TokenType_FUNGIBLE"
    by (simp_all add: TokenType_FUNGIBLE_def js_def surrogate_defs)
  have packed: "packPoolLocator ?L = js ''address=0x123456&schema=ERC20WithData&type=fungible''"
    by (simp add: packPoolLocator_def serialize_defs utf8_encode_def utf8_encode_scalar_def
        js_def surrogate_defs TokenType_FUNGIBLE_def locator_keys)
  from unpackPoolLocator_packPoolLocator [of ?L] wf
  have "unpackPoolLocator (packPoolLocator ?L)
       = \<lparr> address = Some (js ''0x123456''), schema = Some (js ''ERC20WithData''),
           type = Some TokenType_FUNGIBLE \<rparr>"
    by simp
  with wf packed show ?thesis
    by simp
qed

text \<open>
  C6. When the parsed locator string has no \<open>schema\<close> key, the schema field is the
  value of the legacy key, and the locator is valid when the address and the type are
  present too; when the \<open>schema\<close> key is present its value is taken, whether or not the
  legacy key is present as well. So a serialised locator that carries the schema under
  the legacy key unpacks to a valid locator with that value, and one that carries both
  keys unpacks to the value of the current key.
\<close>

theorem unpackPoolLocator_legacy_key:
  "(URLSearchParams_get (URLSearchParams_new data) EncodedPoolLocatorEnum_Schema = None \<longrightarrow>
      schema (unpackPoolLocator data)
        = URLSearchParams_get (URLSearchParams_new data) EncodedPoolLocatorEnum_Standard)
   \<and> (URLSearchParams_get (URLSearchParams_new data) EncodedPoolLocatorEnum_Schema = None
       \<and> URLSearchParams_get (URLSearchParams_new data) EncodedPoolLocatorEnum_Standard = Some v
       \<and> URLSearchParams_get (URLSearchParams_new data) EncodedPoolLocatorEnum_Address = Some a
       \<and> URLSearchParams_get (URLSearchParams_new data) EncodedPoolLocatorEnum_Type = Some t \<longrightarrow>
      unpackPoolLocator data = \<lparr> address = Some a, schema = Some v, type = Some t \<rparr>
      \<and> validatePoolLocator (unpackPoolLocator data))
   \<and> (URLSearchParams_get (URLSearchParams_new data) EncodedPoolLocatorEnum_Schema = Some s \<longrightarrow>
      schema (unpackPoolLocator data) = Some s)
   \<and> (String_isWellFormed a \<and> String_isWellFormed v \<and> String_isWellFormed t \<longrightarrow>
      unpackPoolLocator (URLSearchParams_toString
        [(EncodedPoolLocatorEnum_Address, a), (EncodedPoolLocatorEnum_Standard, v),
         (EncodedPoolLocatorEnum_Type, t)])
        = \<lparr> address = Some a, schema = Some v, type = Some t \<rparr>)
   \<and> (String_isWellFormed v \<and> String_isWellFormed s \<longrightarrow>
      schema (unpackPoolLocator (URLSearchParams_toString
        [(EncodedPoolLocatorEnum_Standard, v), (EncodedPoolLocatorEnum_Schema, s)])) = Some s
      \<and> schema (unpackPoolLocator (URLSearchParams_toString
        [(EncodedPoolLocatorEnum_Schema, s), (EncodedPoolLocatorEnum_Standard, v)])) = Some s)"
proof -
  have keys: "String_isWellFormed EncodedPoolLocatorEnum_Address"
      "String_isWellFormed EncodedPoolLocatorEnum_Schema"
      "String_isWellFormed EncodedPoolLocatorEnum_Standard"
      "String_isWellFormed EncodedPoolLocatorEnum_Type"
    by (simp_all add: locator_keys js_def surrogate_defs)
  have legacy: "unpackPoolLocator (URLSearchParams_toString
        [(EncodedPoolLocatorEnum_Address, a), (EncodedPoolLocatorEnum_Standard, v),
         (EncodedPoolLocatorEnum_Type, t)])
        = \<lparr> address = Some a, schema = Some v, type = Some t \<rparr>"
    if "String_isWellFormed a" "String_isWellFormed v" "String_isWellFormed t"
  proof -
    have "URLSearchParams_new (URLSearchParams_toString
        [(EncodedPoolLocatorEnum_Address, a), (EncodedPoolLocatorEnum_Standard, v),
         (EncodedPoolLocatorEnum_Type, t)]) =
        [(EncodedPoolLocatorEnum_Address, a), (EncodedPoolLocatorEnum_Standard, v),
         (EncodedPoolLocatorEnum_Type, t)]"
      using that keys by (intro URLSearchParams_roundtrip) simp
    then show ?thesis
      unfolding unpackPoolLocator_def Let_def
      by (simp add: URLSearchParams_get_def locator_keys js_def)
  qed
  have both: "schema (unpackPoolLocator (URLSearchParams_toString
        [(EncodedPoolLocatorEnum_Standard, v), (EncodedPoolLocatorEnum_Schema, s)])) = Some s
      \<and> schema (unpackPoolLocator (URLSearchParams_toString
        [(EncodedPoolLocatorEnum_Schema, s), (EncodedPoolLocatorEnum_Standard, v)])) = Some s"
    if "String_isWellFormed v" "String_isWellFormed s"
  proof -
    have "URLSearchParams_new (URLSearchParams_toString
        [(EncodedPoolLocatorEnum_Standard, v), (EncodedPoolLocatorEnum_Schema, s)]) =
        [(EncodedPoolLocatorEnum_Standard, v), (EncodedPoolLocatorEnum_Schema, s)]"
      "URLSearchParams_new (URLSearchParams_toString
        [(EncodedPoolLocatorEnum_Schema, s), (EncodedPoolLocatorEnum_Standard, v)]) =
        [(EncodedPoolLocatorEnum_Schema, s), (EncodedPoolLocatorEnum_Standard, v)]"
      using that keys by (intro URLSearchParams_roundtrip; simp)+
    then show ?thesis
      unfolding unpackPoolLocator_def Let_def
      by (simp add: URLSearchParams_get_def locator_keys js_def)
  qed
  show ?thesis
    using legacy both
    by (auto simp: unpackPoolLocator_def Let_def validatePoolLocator_def)
qed


theorem unpackPoolLocator_legacy_key_witness:
  "URLSearchParams_get
      (URLSearchParams_new (js ''address=0x123456&standard=ERC20WithData&type=fungible''))
      EncodedPoolLocatorEnum_Schema = None
   \<and> unpackPoolLocator (js ''address=0x123456&standard=ERC20WithData&type=fungible'')
       = \<lparr> address = Some (js ''0x123456''), schema = Some (js ''ERC20WithData''),
           type = Some (js ''fungible'') \<rparr>
   \<and> validatePoolLocator
        (unpackPoolLocator (js ''address=0x123456&standard=ERC20WithData&type=fungible''))
   \<and> URLSearchParams_get
        (URLSearchParams_new (js ''address=0x1&standard=OLD&schema=NEW&type=fungible''))
        EncodedPoolLocatorEnum_Standard = Some (js ''OLD'')
   \<and> schema (unpackPoolLocator (js ''address=0x1&standard=OLD&schema=NEW&type=fungible''))
       = Some (js ''NEW'')"
proof -
  let ?d1 = "js ''address=0x123456&standard=ERC20WithData&type=fungible''"
  let ?d2 = "js ''address=0x1&standard=OLD&schema=NEW&type=fungible''"
  have p1: "URLSearchParams_new ?d1 =
      [(js ''address'', js ''0x123456''), (js ''standard'', js ''ERC20WithData''),
       (js ''type'', js ''fungible'')]"
    by (simp add: parse_defs)
  have p2: "URLSearchParams_new ?d2 =
      [(js ''address'', js ''0x1''), (js ''standard'', js ''OLD''), (js ''schema'', js ''NEW''),
       (js ''type'', js ''fungible'')]"
    by (simp add: parse_defs)
  have g1: "URLSearchParams_get (URLSearchParams_new ?d1) EncodedPoolLocatorEnum_Schema = None"
      "URLSearchParams_get (URLSearchParams_new ?d1) EncodedPoolLocatorEnum_Standard
         = Some (js ''ERC20WithData'')"
      "URLSearchParams_get (URLSearchParams_new ?d1) EncodedPoolLocatorEnum_Address
         = Some (js ''0x123456'')"
      "URLSearchParams_get (URLSearchParams_new ?d1) EncodedPoolLocatorEnum_Type
         = Some (js ''fungible'')"
    unfolding p1 by (simp_all add: URLSearchParams_get_def locator_keys js_def)
  have g2: "URLSearchParams_get (URLSearchParams_new ?d2) EncodedPoolLocatorEnum_Schema
         = Some (js ''NEW'')"
      "URLSearchParams_get (URLSearchParams_new ?d2) EncodedPoolLocatorEnum_Standard
         = Some (js ''OLD'')"
    unfolding p2 by (simp_all add: URLSearchParams_get_def locator_keys js_def)
  from unpackPoolLocator_legacy_key
         [of ?d1 "js ''ERC20WithData''" "js ''0x123456''" "js ''fungible''"] g1
  have first: "unpackPoolLocator ?d1
       = \<lparr> address = Some (js ''0x123456''), schema = Some (js ''ERC20WithData''),
           type = Some (js ''fungible'') \<rparr>"
      "validatePoolLocator (unpackPoolLocator ?d1)"
    by blast+
  from unpackPoolLocator_legacy_key [of ?d2 _ _ _ "js ''NEW''"] g2(1)
  have second: "schema (unpackPoolLocator ?d2) = Some (js ''NEW'')"
    by blast
  from g1(1) first g2(2) second show ?thesis
    by blast
qed

section \<open>Call arguments: the claims\<close>

text \<open>
  C2. For a mint with the fields \<open>to = "0x123"\<close>, \<open>amount = "20"\<close> and no data, the
  arguments are \<open>["0x123", "20", "0x00"]\<close> under the schema ERC20WithData (the encoded
  empty data as the final argument) and \<open>["0x123", "20"]\<close> under ERC20NoData (no data
  argument). The schema alone decides whether the data argument is there: under
  ERC20NoData it is absent whatever data is supplied, under ERC20WithData the encoded
  data is always the one argument after the fields of the operation.
\<close>

theorem buildArguments_mint:
  "buildArguments (js ''ERC20WithData'') (Mint (js ''0x123'') (js ''20'')) None
     = Some [js ''0x123'', js ''20'', js ''0x00'']
   \<and> buildArguments (js ''ERC20NoData'') (Mint (js ''0x123'') (js ''20'')) None
     = Some [js ''0x123'', js ''20'']
   \<and> buildArguments (js ''ERC20NoData'') operation data = Some (operationFields operation)
   \<and> buildArguments (js ''ERC20WithData'') operation data
     = Some (operationFields operation @ [encodeHex (case data of None \<Rightarrow> [] | Some d \<Rightarrow> d)])"
proof -
  have with_data: "schemaWithData (js ''ERC20WithData'') = Some True"
    and no_data: "schemaWithData (js ''ERC20NoData'') = Some False"
    by (simp_all add: schemaWithData_def js_def)
  have empty: "encodeHex [] = js ''0x00''"
    by (simp add: encodeHex_def Buffer_toString_hex_def Buffer_from_utf8_def utf8_encode_def)
  show ?thesis
    by (simp add: buildArguments_def with_data no_data empty)
qed

end
